theory Spec2Isabelle
  imports Main "HOL-Library.Char_ord" "HOL-Library.List_Lexorder"
begin

section \<open>Strings and characters\<close>

text \<open>
  The scraper works on Python \<open>str\<close> values. A text is modelled as a \<open>string\<close>, one
  \<open>char\<close> per code point, for the code points 0..255. On this range the character
  classes of Python's \<open>re\<close> module and of \<open>str.strip\<close>, \<open>str.lower\<close> are the ones below.
  Strings are ordered as Python orders them: lexicographically by code point, a proper
  prefix before its extensions.
\<close>

abbreviation NL :: char where
  "NL \<equiv> CHR 0x0A"

definition isdigit :: "char \<Rightarrow> bool" where
  \<comment> \<open>the class \<open>\d\<close>: decimal digits\<close>
  "isdigit c = (48 \<le> (of_char c :: nat) \<and> (of_char c :: nat) \<le> 57)"

definition isspace :: "char \<Rightarrow> bool" where
  \<comment> \<open>the class \<open>\s\<close>, which is also what \<open>str.strip()\<close> removes\<close>
  "isspace c = ((of_char c :: nat) \<in> {9, 10, 11, 12, 13, 28, 29, 30, 31, 32, 133, 160})"

definition isupper_AZ :: "char \<Rightarrow> bool" where
  \<comment> \<open>the class \<open>[A-Z]\<close>\<close>
  "isupper_AZ c = (65 \<le> (of_char c :: nat) \<and> (of_char c :: nat) \<le> 90)"

definition lower_chr :: "char \<Rightarrow> char" where
  "lower_chr c =
     (let n = (of_char c :: nat)
      in if (65 \<le> n \<and> n \<le> 90) \<or> (192 \<le> n \<and> n \<le> 222 \<and> n \<noteq> 215)
         then char_of (n + 32) else c)"

definition lower :: "string \<Rightarrow> string" where
  \<comment> \<open>\<open>str.lower()\<close>\<close>
  "lower s = map lower_chr s"

fun startswith :: "string \<Rightarrow> string \<Rightarrow> bool" where
  \<comment> \<open>\<open>s.startswith(p)\<close>\<close>
  "startswith s [] = True"
| "startswith [] (p # ps) = False"
| "startswith (c # s) (p # ps) = (c = p \<and> startswith s ps)"

fun find_str :: "string \<Rightarrow> string \<Rightarrow> nat option" where
  \<comment> \<open>\<open>s.find(sub)\<close>: the lowest index where \<open>sub\<close> occurs; \<open>None\<close> stands for \<open>-1\<close>\<close>
  "find_str [] sub = (if sub = [] then Some 0 else None)"
| "find_str (c # s) sub =
     (if startswith (c # s) sub then Some 0 else map_option Suc (find_str s sub))"

definition contains :: "string \<Rightarrow> string \<Rightarrow> bool" where
  \<comment> \<open>\<open>sub in s\<close>\<close>
  "contains s sub = (find_str s sub \<noteq> None)"

definition strip :: "string \<Rightarrow> string" where
  \<comment> \<open>\<open>s.strip()\<close>\<close>
  "strip s = rev (dropWhile isspace (rev (dropWhile isspace s)))"

fun split_chr :: "char \<Rightarrow> string \<Rightarrow> string list" where
  \<comment> \<open>\<open>s.split(sep)\<close> for a one-character separator: empty pieces are kept\<close>
  "split_chr sep [] = [[]]"
| "split_chr sep (c # s) =
     (if c = sep then [] # split_chr sep s
      else (case split_chr sep s of w # ws \<Rightarrow> (c # w) # ws | [] \<Rightarrow> [[c]]))"

fun join :: "string \<Rightarrow> string list \<Rightarrow> string" where
  \<comment> \<open>\<open>sep.join(xs)\<close>\<close>
  "join sep [] = []"
| "join sep [x] = x"
| "join sep (x # y # ys) = x @ sep @ join sep (y # ys)"

section \<open>The paper record and the resource probe\<close>

record paper_info =
  paper_id :: string
  title :: string
  authors :: "string list"
  institutions :: "string list"
  abstract :: string
  presentation_url :: string
  paper_url :: string
  poster_url :: string
  doi :: string
  page_number :: string
  presentation_available :: bool
  paper_available :: bool
  poster_available :: bool

datatype exn = RequestException | OSError | OtherException

record response =
  status_code :: int
  content_type :: "string option"

text \<open>
  \<open>self.session.head(url, timeout=10)\<close> is the network: it either raises or returns a
  response, of which the code reads the status code and the \<open>content-type\<close> header
  (\<open>None\<close> when the header is absent).
\<close>

type_synonym http_head = "string \<Rightarrow> exn + response"

definition check_pdf_try :: "http_head \<Rightarrow> string \<Rightarrow> exn + bool" where
  \<comment> \<open>the body of the \<open>try\<close> block of \<open>check_pdf_exists\<close>\<close>
  "check_pdf_try head pdf_url =
     (case head pdf_url of
        Inl e \<Rightarrow> Inl e
      | Inr r \<Rightarrow>
          Inr (status_code r = 200 \<and>
               contains (lower (case content_type r of None \<Rightarrow> [] | Some v \<Rightarrow> v)) ''pdf''))"

definition check_pdf_exists :: "http_head \<Rightarrow> string \<Rightarrow> exn + bool" where
  \<comment> \<open>the bare \<open>except:\<close> turns every exception into \<open>False\<close>\<close>
  "check_pdf_exists head pdf_url =
     (case check_pdf_try head pdf_url of Inl e \<Rightarrow> Inr False | Inr b \<Rightarrow> Inr b)"

section \<open>Extracting one paper\<close>

definition default_paper_info :: "string \<Rightarrow> paper_info" where
  \<comment> \<open>the dictionary \<open>paper_info\<close> as first built\<close>
  "default_paper_info pid =
     \<lparr> paper_id = pid,
       title = [],
       authors = [],
       institutions = [],
       abstract = [],
       presentation_url =
         ''https://proceedings.jacow.org/srf2019/talks/'' @ lower pid @ ''_talk.pdf'',
       paper_url = ''https://proceedings.jacow.org/srf2019/papers/'' @ lower pid @ ''.pdf'',
       poster_url =
         ''https://proceedings.jacow.org/srf2019/posters/'' @ lower pid @ ''_poster.pdf'',
       doi = ''https://doi.org/10.18429/JACoW-SRF2019-'' @ pid,
       page_number = [],
       presentation_available = False,
       paper_available = False,
       poster_available = False \<rparr>"

definition search_paper_id :: "string \<Rightarrow> string \<Rightarrow> nat option" where
  \<comment> \<open>\<open>re.search(rf'{re.escape(paper_id)}\s*(\d*)', page_text)\<close>: the end of the match\<close>
  "search_paper_id pid page_text =
     (case find_str page_text pid of
        None \<Rightarrow> None
      | Some i \<Rightarrow>
          (let rest = drop (i + length pid) page_text;
               ws = takeWhile isspace rest;
               ds = takeWhile isdigit (dropWhile isspace rest)
           in Some (i + length pid + length ws + length ds)))"

definition next_paper_at :: "string \<Rightarrow> bool" where
  \<comment> \<open>the pattern \<open>[A-Z]{5}\d+\<close> matches at the head of the string\<close>
  "next_paper_at s =
     (6 \<le> length s \<and> list_all isupper_AZ (take 5 s) \<and> list_all isdigit (take 1 (drop 5 s)))"

fun search_next_paper :: "string \<Rightarrow> nat option" where
  \<comment> \<open>\<open>re.search(r'[A-Z]{5}\d+', s)\<close>: the start of the match\<close>
  "search_next_paper [] = None"
| "search_next_paper (c # s) =
     (if next_paper_at (c # s) then Some 0 else map_option Suc (search_next_paper s))"

definition end_markers :: "string list" where
  "end_markers = [''DOI:'', ''Received:'', ''Accepted:'', ''Paper:'', ''Cite:'', ''Export:'']"

definition marker_step :: "string \<Rightarrow> nat \<Rightarrow> string \<Rightarrow> nat" where
  \<comment> \<open>one round of the loop over the end markers\<close>
  "marker_step remaining_text min_end marker =
     (case find_str remaining_text marker of
        None \<Rightarrow> min_end
      | Some marker_pos \<Rightarrow> if marker_pos < min_end then marker_pos else min_end)"

definition paper_content_of :: "string \<Rightarrow> string" where
  \<comment> \<open>the section of one paper, cut out of the text after its identifier\<close>
  "paper_content_of remaining_text =
     (case search_next_paper remaining_text of
        Some k \<Rightarrow> take k remaining_text
      | None \<Rightarrow>
          (let min_end = foldl (marker_step remaining_text) (length remaining_text) end_markers
           in if min_end < length remaining_text then take min_end remaining_text
              else remaining_text))"

definition content_lines :: "string \<Rightarrow> string list" where
  \<comment> \<open>\<open>[line.strip() for line in paper_content.split('\n') if line.strip()]\<close>\<close>
  "content_lines paper_content =
     map strip (filter (\<lambda>line. strip line \<noteq> []) (split_chr NL paper_content))"

definition is_page_line :: "string \<Rightarrow> bool" where
  \<comment> \<open>\<open>re.match(r'^\d{1,3}$', line)\<close> on a stripped line\<close>
  "is_page_line line = (1 \<le> length line \<and> length line \<le> 3 \<and> list_all isdigit line)"

definition author_stop_words :: "string list" where
  "author_stop_words = [''funding'', ''doi'', ''received'', ''accepted'']"

definition institution_keywords :: "string list" where
  "institution_keywords =
     [''University'', ''Laboratory'', ''Institute'', ''Center'', ''Corporation'',
      ''School'', ''Facility'', ''National'', ''Synchrotron'', ''KEK'', ''FRIB'', ''LBNL'',
      ''DESY'', ''SLAC'', ''CERN'', ''Jefferson Lab'', ''Argonne'']"

definition abstract_stop_prefixes :: "string list" where
  "abstract_stop_prefixes = [''Funding:'', ''DOI:'', ''Received:'', ''Accepted:'']"

definition is_author_line :: "string \<Rightarrow> bool" where
  "is_author_line line =
     (CHR '','' \<in> set line \<and> 1 < length (split_chr (CHR '','') line) \<and>
      \<not> list_ex (\<lambda>keyword. contains (lower line) keyword) author_stop_words)"

definition is_institution_line :: "string \<Rightarrow> bool" where
  "is_institution_line line = list_ex (\<lambda>keyword. contains line keyword) institution_keywords"

definition is_abstract_line :: "string \<Rightarrow> bool" where
  "is_abstract_line line =
     (20 < length line \<and> \<not> list_ex (\<lambda>p. startswith line p) abstract_stop_prefixes)"

definition classify_line ::
  "string \<Rightarrow> string \<Rightarrow> string list \<times> string list \<times> string list \<Rightarrow> string \<Rightarrow>
   string list \<times> string list \<times> string list" where
  \<comment> \<open>one round of the loop over the lines; the state is
      \<open>(author_lines, institution_lines, abstract_lines)\<close>\<close>
  "classify_line ttl pn acc line =
     (case acc of (author_lines, institution_lines, abstract_lines) \<Rightarrow>
        if line = ttl \<or> line = pn then acc
        else if is_author_line line
          then (author_lines @ [line], institution_lines, abstract_lines)
        else if is_institution_line line
          then (author_lines, institution_lines @ [line], abstract_lines)
        else if is_abstract_line line
          then (author_lines, institution_lines, abstract_lines @ [line])
        else acc)"

definition split_authors :: "string \<Rightarrow> string list" where
  \<comment> \<open>\<open>[a.strip() for a in author_line.split(',') if a.strip()]\<close>\<close>
  "split_authors author_line =
     map strip (filter (\<lambda>a. strip a \<noteq> []) (split_chr (CHR '','') author_line))"

definition title_and_page :: "string list \<Rightarrow> paper_info \<Rightarrow> paper_info" where
  \<comment> \<open>the title is the first line; the page number is the first page line of all lines\<close>
  "title_and_page lines info0 =
     (let info1 = (case lines of [] \<Rightarrow> info0 | l # _ \<Rightarrow> info0\<lparr>title := l\<rparr>)
      in case find is_page_line lines of None \<Rightarrow> info1 | Some l \<Rightarrow> info1\<lparr>page_number := l\<rparr>)"

definition classify_lines :: "string list \<Rightarrow> paper_info \<Rightarrow> paper_info" where
  \<comment> \<open>authors, institutions and abstract, from the loop over all lines\<close>
  "classify_lines lines info2 =
     (let (author_lines, institution_lines, abstract_lines) =
             foldl (classify_line (title info2) (page_number info2)) ([], [], []) lines;
          info3 = (if author_lines \<noteq> []
                   then info2\<lparr>authors := concat (map split_authors author_lines)\<rparr> else info2);
          info4 = (if institution_lines \<noteq> []
                   then info3\<lparr>institutions := institution_lines\<rparr> else info3)
      in if abstract_lines \<noteq> [] then info4\<lparr>abstract := join '' '' abstract_lines\<rparr> else info4)"

definition parse_lines :: "string list \<Rightarrow> paper_info \<Rightarrow> paper_info" where
  \<comment> \<open>everything the extractor reads from the lines of the section\<close>
  "parse_lines lines info0 = classify_lines lines (title_and_page lines info0)"

definition probe_all :: "http_head \<Rightarrow> paper_info \<Rightarrow> exn + paper_info" where
  \<comment> \<open>the three availability checks, in the order of the source\<close>
  "probe_all head info =
     (case check_pdf_exists head (presentation_url info) of
        Inl e \<Rightarrow> Inl e
      | Inr b1 \<Rightarrow>
     (case check_pdf_exists head (paper_url info) of
        Inl e \<Rightarrow> Inl e
      | Inr b2 \<Rightarrow>
     (case check_pdf_exists head (poster_url info) of
        Inl e \<Rightarrow> Inl e
      | Inr b3 \<Rightarrow>
          Inr (info\<lparr>presentation_available := b1, paper_available := b2,
                     poster_available := b3\<rparr>))))"

definition extract_paper_details_from_page ::
  "http_head \<Rightarrow> string \<Rightarrow> string \<Rightarrow> exn + paper_info" where
  "extract_paper_details_from_page head page_text pid =
     (let info = default_paper_info pid
      in case search_paper_id pid page_text of
           None \<Rightarrow> Inr info
         | Some start_pos \<Rightarrow>
             (let remaining_text = drop start_pos page_text;
                  paper_content = paper_content_of remaining_text;
                  lines = content_lines paper_content
              in probe_all head (parse_lines lines info)))"

section \<open>Extracting a session\<close>

text \<open>
  The functions take the page text itself, which the source obtains with
  \<open>soup.get_text()\<close>. Logging leaves the returned values unchanged and is left out.
  Before it looks for papers, \<open>extract_papers_from_session\<close> writes a debug copy of the
  page text to a file named after the session, outside any \<open>try\<close>: opening or writing
  the file may raise, and then the function raises. The file system is a parameter, from
  the path below the output directory and the contents to the outcome of the write.
\<close>

type_synonym file_write = "string \<Rightarrow> string \<Rightarrow> exn + unit"

definition debug_file :: "string \<Rightarrow> string" where
  \<comment> \<open>\<open>self.output_dir / "Debug" / f"{session_id}_page_text.txt"\<close>\<close>
  "debug_file session_id = ''Debug/'' @ session_id @ ''_page_text.txt''"

function findall_ids :: "string \<Rightarrow> string \<Rightarrow> string list" where
  \<comment> \<open>\<open>re.findall(rf'{re.escape(session_id)}(\d+)', page_text)\<close>: the digit groups of the
      matches, left to right, no two matches overlapping\<close>
  "findall_ids sid [] = []"
| "findall_ids sid (c # t) =
     (let ds = takeWhile isdigit (drop (length sid) (c # t))
      in if startswith (c # t) sid \<and> ds \<noteq> []
         then ds # findall_ids sid (drop (length sid + length ds) (c # t))
         else findall_ids sid t)"
  by pat_completeness auto
termination
  by (relation "measure (\<lambda>(sid, t). length t)") auto

fun collect_papers :: "(string \<Rightarrow> exn + paper_info) \<Rightarrow> string list \<Rightarrow> exn + paper_info list" where
  \<comment> \<open>the loop over the paper identifiers; an exception of the extractor would end it\<close>
  "collect_papers f [] = Inr []"
| "collect_papers f (pid # pids) =
     (case f pid of
        Inl e \<Rightarrow> Inl e
      | Inr info \<Rightarrow>
          (case collect_papers f pids of Inl e \<Rightarrow> Inl e | Inr papers \<Rightarrow> Inr (info # papers)))"

definition extract_papers_from_session ::
  "file_write \<Rightarrow> http_head \<Rightarrow> string \<Rightarrow> string \<Rightarrow> exn + paper_info list" where
  "extract_papers_from_session fs head page_text session_id =
     (case fs (debug_file session_id) page_text of
        Inl e \<Rightarrow> Inl e
      | Inr _ \<Rightarrow>
          (let paper_matches = findall_ids session_id page_text
           in if paper_matches = [] then Inr []
              else (let paper_nums = sort (remdups paper_matches)
                    in collect_papers (extract_paper_details_from_page head page_text)
                         (map (\<lambda>paper_num. session_id @ paper_num) paper_nums))))"

section \<open>Saving a session\<close>

record session =
  session_id :: string
  session_name :: string
  session_url :: string

record session_data =
  session_info :: session
  papers :: "paper_info list"
  paper_count :: nat
  scrape_time :: string

definition save_session_data :: "string \<Rightarrow> session \<Rightarrow> paper_info list \<Rightarrow> session_data" where
  \<comment> \<open>the dictionary written as JSON; \<open>now\<close> is the clock's reading\<close>
  "save_session_data now s ps =
     \<lparr> session_info = s, papers = ps, paper_count = length ps, scrape_time = now \<rparr>"

definition available_count :: "(paper_info \<Rightarrow> bool) \<Rightarrow> paper_info list \<Rightarrow> nat" where
  \<comment> \<open>\<open>sum(1 for p in papers if p.get(flag, False))\<close>\<close>
  "available_count flag ps = sum_list (map (\<lambda>p. 1) (filter flag ps))"

record txt_summary =
  txt_paper_count :: nat
  available_presentations :: nat
  available_papers_count :: nat
  available_posters :: nat

definition save_session_txt :: "paper_info list \<Rightarrow> txt_summary" where
  \<comment> \<open>the counts printed at the head of the text summary\<close>
  "save_session_txt ps =
     \<lparr> txt_paper_count = length ps,
       available_presentations = available_count presentation_available ps,
       available_papers_count = available_count paper_available ps,
       available_posters = available_count poster_available ps \<rparr>"

section \<open>The specification's reading of some rules\<close>

definition suffix_as_integer :: "string \<Rightarrow> nat" where
  \<comment> \<open>the number a string of decimal digits denotes\<close>
  "suffix_as_integer ds = foldl (\<lambda>n c. 10 * n + (of_char c - 48)) 0 ds"

definition section_end_as_specified :: "string \<Rightarrow> nat" where
  \<comment> \<open>the specification's end of a section: the next paper identifier or the earliest end
      marker, whichever comes first\<close>
  "section_end_as_specified s =
     min (case search_next_paper s of None \<Rightarrow> length s | Some k \<Rightarrow> k)
         (foldl (marker_step s) (length s) end_markers)"

definition author_line_as_specified :: "string \<Rightarrow> bool" where
  \<comment> \<open>the specification's author rule: two or more non-empty comma-separated pieces\<close>
  "author_line_as_specified line =
     (CHR '','' \<in> set line \<and>
      2 \<le> length (filter (\<lambda>a. a \<noteq> []) (split_chr (CHR '','') line)) \<and>
      \<not> list_ex (\<lambda>keyword. contains (lower line) keyword) author_stop_words)"

definition section_lines_as_specified :: "string \<Rightarrow> string \<Rightarrow> string list" where
  \<comment> \<open>the lines of the specification's section, which begins immediately after the first
      occurrence of the paper identifier\<close>
  "section_lines_as_specified pid page_text =
     (case find_str page_text pid of
        None \<Rightarrow> []
      | Some i \<Rightarrow>
          (let s = drop (i + length pid) page_text
           in content_lines (take (section_end_as_specified s) s)))"

section \<open>Networks and file systems for the examples\<close>

definition any_file_ok :: file_write where
  \<comment> \<open>every write succeeds\<close>
  "any_file_ok path contents = Inr ()"

definition flat_debug_dir :: file_write where
  \<comment> \<open>the directory \<open>Debug\<close> exists and has no subdirectories\<close>
  "flat_debug_dir path contents =
     (if startswith path ''Debug/'' \<and> CHR ''/'' \<notin> set (drop 6 path) then Inr ()
      else Inl OSError)"

definition offline :: http_head where
  "offline pdf_url = Inl RequestException"

definition pdf_server :: http_head where
  "pdf_server pdf_url = Inr \<lparr>status_code = 200, content_type = Some ''application/PDF''\<rparr>"

section \<open>Example pages\<close>

definition scenario_page :: string where
  "scenario_page =
     ''MOFAA1'' @ [NL] @ ''Advances in SRF Cavities'' @ [NL] @ ''12'' @ [NL] @
     ''A. Smith, B. Jones'' @ [NL] @ ''99'' @ [NL]"

definition numeric_title_page :: string where
  "numeric_title_page = ''MOFAA1 12'' @ [NL] @ ''34'' @ [NL] @ ''Cavity tuning'' @ [NL]"


definition priority_page :: string where
  "priority_page = ''MOFAA1 Title'' @ [NL] @ ''Jefferson Lab, A. Smith, B. Jones'' @ [NL]"

definition trailing_comma_page :: string where
  "trailing_comma_page = ''MOFAA1 Title'' @ [NL] @ ''Stanford University,'' @ [NL]"

definition authors_page :: string where
  "authors_page =
     ''MOFAA1 Title'' @ [NL] @ ''A. Smith , B. Jones,'' @ [NL] @ ''Funding: DOE, NSF'' @ [NL] @
     ''C. Wu, A. Smith'' @ [NL]"

definition marker_then_paper :: string where
  "marker_then_paper = ''Title DOI: 10.18429/x MOFAA2 Next title''"

definition marker_only :: string where
  "marker_only = ''Title Received: 1 July DOI: 10.18429/x''"

definition no_boundary :: string where
  "no_boundary = ''Title of the last paper''"

section \<open>Facts about the string operations\<close>

lemma startswith_iff: "startswith s p \<longleftrightarrow> (\<exists>t. s = p @ t)"
  by (induction s p rule: startswith.induct) auto

lemma find_str_None_iff: "find_str s sub = None \<longleftrightarrow> (\<forall>a b. s \<noteq> a @ sub @ b)"
proof (induction s)
  case Nil
  then show ?case by auto
next
  case (Cons c s)
  show ?case
  proof (cases "startswith (c # s) sub")
    case True
    then obtain t where "c # s = sub @ t" by (auto simp: startswith_iff)
    then have "c # s = [] @ sub @ t" by simp
    with True show ?thesis by (metis find_str.simps(2) option.distinct(1))
  next
    case False
    have "(\<exists>a b. c # s = a @ sub @ b) \<longleftrightarrow> (\<exists>a b. s = a @ sub @ b)"
    proof
      assume "\<exists>a b. c # s = a @ sub @ b"
      then obtain a b where ab: "c # s = a @ sub @ b" by blast
      show "\<exists>a b. s = a @ sub @ b"
      proof (cases a)
        case Nil
        with ab False show ?thesis by (auto simp: startswith_iff)
      next
        case (Cons x a')
        with ab have "s = a' @ sub @ b" by simp
        then show ?thesis by blast
      qed
    next
      assume "\<exists>a b. s = a @ sub @ b"
      then obtain a b where "s = a @ sub @ b" by blast
      then have "c # s = (c # a) @ sub @ b" by simp
      then show "\<exists>a b. c # s = a @ sub @ b" by blast
    qed
    then have "(\<forall>a b. c # s \<noteq> a @ sub @ b) \<longleftrightarrow> (\<forall>a b. s \<noteq> a @ sub @ b)"
      by blast
    with False Cons.IH show ?thesis by simp
  qed
qed

lemma contains_iff: "contains s sub \<longleftrightarrow> (\<exists>a b. s = a @ sub @ b)"
  using find_str_None_iff [of s sub] by (auto simp: contains_def)

lemma find_str_Some_iff:
  "find_str s sub = Some i \<longleftrightarrow>
     i \<le> length s \<and> startswith (drop i s) sub \<and> (\<forall>j<i. \<not> startswith (drop j s) sub)"
proof (induction s arbitrary: i)
  case Nil
  then show ?case by (cases sub) auto
next
  case (Cons c s)
  show ?case
  proof (cases "startswith (c # s) sub")
    case True
    then show ?thesis by (cases i) auto
  next
    case False
    show ?thesis
    proof (cases i)
      case 0
      with False show ?thesis by simp
    next
      case (Suc k)
      have "(\<forall>j<Suc k. \<not> startswith (drop j (c # s)) sub) \<longleftrightarrow> (\<forall>j<k. \<not> startswith (drop j s) sub)"
        using False by (auto simp: less_Suc_eq_0_disj)
      with False Suc Cons.IH [of k] show ?thesis by auto
    qed
  qed
qed

section \<open>The probe and the extractor never raise\<close>

lemma check_pdf_exists_total: "\<exists>b. check_pdf_exists head u = Inr b"
  by (cases "check_pdf_try head u") (auto simp: check_pdf_exists_def)

lemma probe_all_Inr:
  "\<exists>b1 b2 b3. probe_all head info =
     Inr (info\<lparr>presentation_available := b1, paper_available := b2, poster_available := b3\<rparr>)"
proof -
  obtain b1 where 1: "check_pdf_exists head (presentation_url info) = Inr b1"
    using check_pdf_exists_total by blast
  obtain b2 where 2: "check_pdf_exists head (paper_url info) = Inr b2"
    using check_pdf_exists_total by blast
  obtain b3 where 3: "check_pdf_exists head (poster_url info) = Inr b3"
    using check_pdf_exists_total by blast
  have "probe_all head info =
     Inr (info\<lparr>presentation_available := b1, paper_available := b2, poster_available := b3\<rparr>)"
    by (simp add: probe_all_def 1 2 3)
  then show ?thesis by blast
qed

lemma parse_lines_keeps:
  "paper_id (parse_lines ls i) = paper_id i"
  "presentation_url (parse_lines ls i) = presentation_url i"
  "paper_url (parse_lines ls i) = paper_url i"
  "poster_url (parse_lines ls i) = poster_url i"
  "doi (parse_lines ls i) = doi i"
  by (simp_all add: parse_lines_def classify_lines_def title_and_page_def Let_def
      split: prod.split list.split option.split)

lemma extract_found:
  assumes "search_paper_id pid T = Some start"
  shows "\<exists>b1 b2 b3. extract_paper_details_from_page head T pid =
     Inr ((parse_lines (content_lines (paper_content_of (drop start T))) (default_paper_info pid))
            \<lparr>presentation_available := b1, paper_available := b2, poster_available := b3\<rparr>)"
  using assms probe_all_Inr [of head "parse_lines (content_lines (paper_content_of (drop start T))) (default_paper_info pid)"]
  by (simp add: extract_paper_details_from_page_def Let_def)

lemma extract_total:
  "\<exists>r. extract_paper_details_from_page head T pid = Inr r \<and> paper_id r = pid \<and>
     presentation_url r = presentation_url (default_paper_info pid) \<and>
     paper_url r = paper_url (default_paper_info pid) \<and>
     poster_url r = poster_url (default_paper_info pid) \<and>
     doi r = doi (default_paper_info pid)"
proof (cases "search_paper_id pid T")
  case None
  then show ?thesis
    by (simp add: extract_paper_details_from_page_def Let_def default_paper_info_def)
next
  case (Some start)
  from extract_found [OF Some, of head] obtain b1 b2 b3 where
    "extract_paper_details_from_page head T pid =
     Inr ((parse_lines (content_lines (paper_content_of (drop start T))) (default_paper_info pid))
            \<lparr>presentation_available := b1, paper_available := b2, poster_available := b3\<rparr>)"
    by blast
  then show ?thesis by (simp add: parse_lines_keeps default_paper_info_def)
qed

section \<open>The resource probe\<close>

text \<open>
  Claim C3. For every URL, \<open>check_pdf_exists\<close> never raises; it returns true exactly when
  the probe returned a response with status 200 whose content type, lower-cased,
  contains \<open>pdf\<close> (an absent header counts as the empty string); when the probe raises,
  it returns false.
\<close>

theorem check_pdf_exists_correct:
  "(\<exists>b. check_pdf_exists head pdf_url = Inr b) \<and>
   (check_pdf_exists head pdf_url = Inr True \<longleftrightarrow>
      (\<exists>r. head pdf_url = Inr r \<and> status_code r = 200 \<and>
           (\<exists>a b. lower (case content_type r of None \<Rightarrow> [] | Some v \<Rightarrow> v) = a @ ''pdf'' @ b))) \<and>
   ((\<exists>e. head pdf_url = Inl e) \<longrightarrow> check_pdf_exists head pdf_url = Inr False)"
  by (cases "head pdf_url")
     (auto simp: check_pdf_exists_def check_pdf_try_def contains_iff)

theorem check_pdf_exists_correct_witness:
  "check_pdf_exists offline ''https://proceedings.jacow.org/srf2019/papers/mofaa1.pdf'' = Inr False \<and>
   check_pdf_exists pdf_server ''https://proceedings.jacow.org/srf2019/papers/mofaa1.pdf'' = Inr True"
proof -
  let ?u = "''https://proceedings.jacow.org/srf2019/papers/mofaa1.pdf''"
  let ?r = "\<lparr>status_code = 200, content_type = Some ''application/PDF''\<rparr>"
  have "\<exists>e. offline ?u = Inl e" by (simp add: offline_def)
  with check_pdf_exists_correct [of offline ?u]
  have 1: "check_pdf_exists offline ?u = Inr False" by blast
  have "contains (lower ''application/PDF'') ''pdf''" by code_simp
  then have "\<exists>a b. lower (case content_type ?r of None \<Rightarrow> [] | Some v \<Rightarrow> v) = a @ ''pdf'' @ b"
    unfolding contains_iff by simp
  moreover have "pdf_server ?u = Inr ?r" by (simp add: pdf_server_def)
  moreover have "status_code ?r = 200" by simp
  ultimately have "\<exists>r. pdf_server ?u = Inr r \<and> status_code r = 200 \<and>
      (\<exists>a b. lower (case content_type r of None \<Rightarrow> [] | Some v \<Rightarrow> v) = a @ ''pdf'' @ b)"
    by blast
  with check_pdf_exists_correct [of pdf_server ?u]
  have 2: "check_pdf_exists pdf_server ?u = Inr True" by blast
  from 1 2 show ?thesis by blast
qed

section \<open>Derived URLs\<close>

lemma lower_pointwise:
  "length (lower pid) = length pid"
  "i < length pid \<Longrightarrow>
     (of_char (lower pid ! i) :: nat) =
       (if (65 \<le> (of_char (pid ! i) :: nat) \<and> (of_char (pid ! i) :: nat) \<le> 90) \<or>
           (192 \<le> (of_char (pid ! i) :: nat) \<and> (of_char (pid ! i) :: nat) \<le> 222 \<and>
            (of_char (pid ! i) :: nat) \<noteq> 215)
        then of_char (pid ! i) + 32 else of_char (pid ! i))"
  by (auto simp: lower_def lower_chr_def Let_def)

text \<open>
  Claim C7. Whatever the network answers and whatever the page text is, the extractor
  returns a record whose talk, paper and poster URLs are the base path, the
  resource's directory, the lower-cased paper identifier and the resource's suffix, and
  whose DOI is the citation prefix, the conference code and the paper identifier. The
  four values therefore depend on the paper identifier alone. The lower-cased identifier
  has the length of the identifier; at each position a capital letter (\<open>A\<close> to \<open>Z\<close>, and
  the capital letters of the upper half of the code points 0..255) is replaced by the
  small letter 32 code points above it, and every other character is kept.
\<close>

theorem derived_urls:
  "(\<exists>r. extract_paper_details_from_page head page_text pid = Inr r \<and>
     presentation_url r = ''https://proceedings.jacow.org/srf2019'' @ ''/talks/'' @ lower pid @ ''_talk.pdf'' \<and>
     paper_url r = ''https://proceedings.jacow.org/srf2019'' @ ''/papers/'' @ lower pid @ ''.pdf'' \<and>
     poster_url r = ''https://proceedings.jacow.org/srf2019'' @ ''/posters/'' @ lower pid @ ''_poster.pdf'' \<and>
     doi r = ''https://doi.org/10.18429/JACoW-'' @ ''SRF2019'' @ ''-'' @ pid) \<and>
   length (lower pid) = length pid \<and>
   (\<forall>i<length pid.
      (of_char (lower pid ! i) :: nat) =
        (if (65 \<le> (of_char (pid ! i) :: nat) \<and> (of_char (pid ! i) :: nat) \<le> 90) \<or>
            (192 \<le> (of_char (pid ! i) :: nat) \<and> (of_char (pid ! i) :: nat) \<le> 222 \<and>
             (of_char (pid ! i) :: nat) \<noteq> 215)
         then of_char (pid ! i) + 32 else of_char (pid ! i)))"
proof (intro conjI allI impI)
  show "\<exists>r. extract_paper_details_from_page head page_text pid = Inr r \<and>
     presentation_url r = ''https://proceedings.jacow.org/srf2019'' @ ''/talks/'' @ lower pid @ ''_talk.pdf'' \<and>
     paper_url r = ''https://proceedings.jacow.org/srf2019'' @ ''/papers/'' @ lower pid @ ''.pdf'' \<and>
     poster_url r = ''https://proceedings.jacow.org/srf2019'' @ ''/posters/'' @ lower pid @ ''_poster.pdf'' \<and>
     doi r = ''https://doi.org/10.18429/JACoW-'' @ ''SRF2019'' @ ''-'' @ pid"
    using extract_total [of head page_text pid] by (auto simp: default_paper_info_def)
next
  show "length (lower pid) = length pid" by (rule lower_pointwise(1))
next
  fix i assume "i < length pid"
  then show "(of_char (lower pid ! i) :: nat) =
        (if (65 \<le> (of_char (pid ! i) :: nat) \<and> (of_char (pid ! i) :: nat) \<le> 90) \<or>
            (192 \<le> (of_char (pid ! i) :: nat) \<and> (of_char (pid ! i) :: nat) \<le> 222 \<and>
             (of_char (pid ! i) :: nat) \<noteq> 215)
         then of_char (pid ! i) + 32 else of_char (pid ! i))"
    by (rule lower_pointwise(2))
qed

theorem derived_urls_witness:
  "\<exists>r. extract_paper_details_from_page pdf_server scenario_page ''MOFAA1'' = Inr r \<and>
     presentation_url r = ''https://proceedings.jacow.org/srf2019/talks/mofaa1_talk.pdf'' \<and>
     paper_url r = ''https://proceedings.jacow.org/srf2019/papers/mofaa1.pdf'' \<and>
     poster_url r = ''https://proceedings.jacow.org/srf2019/posters/mofaa1_poster.pdf'' \<and>
     doi r = ''https://doi.org/10.18429/JACoW-SRF2019-MOFAA1''"
proof -
  have l: "lower ''MOFAA1'' = ''mofaa1''" by code_simp
  from derived_urls [of pdf_server scenario_page "''MOFAA1''", THEN conjunct1]
  obtain r where r: "extract_paper_details_from_page pdf_server scenario_page ''MOFAA1'' = Inr r"
    and u: "presentation_url r =
        ''https://proceedings.jacow.org/srf2019'' @ ''/talks/'' @ lower ''MOFAA1'' @ ''_talk.pdf''"
      "paper_url r =
        ''https://proceedings.jacow.org/srf2019'' @ ''/papers/'' @ lower ''MOFAA1'' @ ''.pdf''"
      "poster_url r =
        ''https://proceedings.jacow.org/srf2019'' @ ''/posters/'' @ lower ''MOFAA1'' @ ''_poster.pdf''"
      "doi r = ''https://doi.org/10.18429/JACoW-'' @ ''SRF2019'' @ ''-'' @ ''MOFAA1''"
    by blast
  from u have "presentation_url r = ''https://proceedings.jacow.org/srf2019/talks/mofaa1_talk.pdf''"
    "paper_url r = ''https://proceedings.jacow.org/srf2019/papers/mofaa1.pdf''"
    "poster_url r = ''https://proceedings.jacow.org/srf2019/posters/mofaa1_poster.pdf''"
    "doi r = ''https://doi.org/10.18429/JACoW-SRF2019-MOFAA1''"
    by (simp_all add: l)
  with r show ?thesis by (intro exI [of _ r] conjI)
qed

section \<open>A paper that is not in the text\<close>

text \<open>
  Claim C4. When the paper identifier occurs nowhere in the page text, the extractor
  returns (it does not raise) the record with empty title, authors, institutions,
  abstract and page number, with the three URLs and the DOI derived from the
  identifier, and with the three availability flags false.
\<close>

theorem missing_paper_defaults:
  assumes "\<not> (\<exists>a b. page_text = a @ pid @ b)"
  shows "extract_paper_details_from_page head page_text pid =
     Inr \<lparr> paper_id = pid, title = [], authors = [], institutions = [], abstract = [],
       presentation_url = ''https://proceedings.jacow.org/srf2019/talks/'' @ lower pid @ ''_talk.pdf'',
       paper_url = ''https://proceedings.jacow.org/srf2019/papers/'' @ lower pid @ ''.pdf'',
       poster_url = ''https://proceedings.jacow.org/srf2019/posters/'' @ lower pid @ ''_poster.pdf'',
       doi = ''https://doi.org/10.18429/JACoW-SRF2019-'' @ pid,
       page_number = [],
       presentation_available = False, paper_available = False, poster_available = False \<rparr>"
proof -
  from assms have "find_str page_text pid = None" by (simp add: find_str_None_iff)
  then show ?thesis
    by (simp add: extract_paper_details_from_page_def search_paper_id_def default_paper_info_def)
qed

theorem missing_paper_defaults_witness:
  "\<not> (\<exists>a b. ''MOFAA2 Commissioning of the cryomodule'' = a @ ''MOFAA1'' @ b) \<and>
   extract_paper_details_from_page pdf_server ''MOFAA2 Commissioning of the cryomodule'' ''MOFAA1'' =
     Inr \<lparr> paper_id = ''MOFAA1'', title = [], authors = [], institutions = [], abstract = [],
       presentation_url = ''https://proceedings.jacow.org/srf2019/talks/mofaa1_talk.pdf'',
       paper_url = ''https://proceedings.jacow.org/srf2019/papers/mofaa1.pdf'',
       poster_url = ''https://proceedings.jacow.org/srf2019/posters/mofaa1_poster.pdf'',
       doi = ''https://doi.org/10.18429/JACoW-SRF2019-MOFAA1'',
       page_number = [],
       presentation_available = False, paper_available = False, poster_available = False \<rparr>"
proof -
  have "find_str ''MOFAA2 Commissioning of the cryomodule'' ''MOFAA1'' = None"
    by code_simp
  from find_str_None_iff [THEN iffD1, OF this]
  have h: "\<not> (\<exists>a b. ''MOFAA2 Commissioning of the cryomodule'' = a @ ''MOFAA1'' @ b)"
    by blast
  have l: "lower ''MOFAA1'' = ''mofaa1''" by code_simp
  from missing_paper_defaults [OF h, of pdf_server] l
  have "extract_paper_details_from_page pdf_server ''MOFAA2 Commissioning of the cryomodule'' ''MOFAA1'' =
     Inr \<lparr> paper_id = ''MOFAA1'', title = [], authors = [], institutions = [], abstract = [],
       presentation_url = ''https://proceedings.jacow.org/srf2019/talks/mofaa1_talk.pdf'',
       paper_url = ''https://proceedings.jacow.org/srf2019/papers/mofaa1.pdf'',
       poster_url = ''https://proceedings.jacow.org/srf2019/posters/mofaa1_poster.pdf'',
       doi = ''https://doi.org/10.18429/JACoW-SRF2019-MOFAA1'',
       page_number = [],
       presentation_available = False, paper_available = False, poster_available = False \<rparr>"
    by simp
  with h show ?thesis by blast
qed

section \<open>Session counts\<close>

lemma available_count_length: "available_count flag ps = length (filter flag ps)"
  by (simp add: available_count_def sum_list_triv)

text \<open>
  Claim C9. The saved session data keeps the paper list as given and its paper count is
  the length of that list; in the text summary the paper count is the length of the
  list and each availability count is the number of positions of the list whose paper
  has the flag set. All four are computed from the list when the session is saved.
\<close>

theorem session_counts_recount:
  "papers (save_session_data now s ps) = ps \<and>
   paper_count (save_session_data now s ps) = length (papers (save_session_data now s ps)) \<and>
   txt_paper_count (save_session_txt ps) = length ps \<and>
   available_presentations (save_session_txt ps) =
     card {i. i < length ps \<and> presentation_available (ps ! i)} \<and>
   available_papers_count (save_session_txt ps) =
     card {i. i < length ps \<and> paper_available (ps ! i)} \<and>
   available_posters (save_session_txt ps) =
     card {i. i < length ps \<and> poster_available (ps ! i)}"
  by (simp add: save_session_data_def save_session_txt_def available_count_length
      length_filter_conv_card)

section \<open>The paper identifiers of a session\<close>

lemma collect_papers_ids:
  assumes "\<And>pid. \<exists>r. f pid = Inr r \<and> paper_id r = pid"
  shows "\<exists>ps. collect_papers f pids = Inr ps \<and> map paper_id ps = pids"
proof (induction pids)
  case Nil
  then show ?case by simp
next
  case (Cons pid pids)
  from assms obtain r where r: "f pid = Inr r" "paper_id r = pid" by blast
  from Cons.IH obtain ps where ps: "collect_papers f pids = Inr ps" "map paper_id ps = pids"
    by blast
  from r ps show ?case by simp
qed

lemma session_ids:
  assumes "fs (debug_file S) T = Inr u"
  shows "\<exists>ps. extract_papers_from_session fs head T S = Inr ps \<and>
     map paper_id ps = map (\<lambda>num. S @ num) (sort (remdups (findall_ids S T)))"
proof (cases "findall_ids S T = []")
  case True
  with assms show ?thesis by (simp add: extract_papers_from_session_def)
next
  case False
  have "\<And>pid. \<exists>r. extract_paper_details_from_page head T pid = Inr r \<and> paper_id r = pid"
    using extract_total by blast
  from collect_papers_ids [of "extract_paper_details_from_page head T", OF this]
  show ?thesis using False assms by (simp add: extract_papers_from_session_def Let_def)
qed

text \<open>
  Claim C1, as the code has it. The segmenter first writes the debug copy of the page text.
  When that write succeeds, it returns the papers whose identifiers are the session
  identifier followed by the matched digit strings, each digit string once, in strictly
  ascending order of the strings (lexicographic by character), however often a match
  repeats in the text. When the write raises, the segmenter raises the same exception.
\<close>

theorem session_ids_sorted_as_strings:
  "(fs (debug_file S) T = Inr () \<longrightarrow>
      (\<exists>ps nums. extract_papers_from_session fs head T S = Inr ps \<and>
         map paper_id ps = map (\<lambda>num. S @ num) nums \<and>
         sorted_wrt (<) nums \<and> distinct nums \<and> set nums = set (findall_ids S T))) \<and>
   (\<forall>e. fs (debug_file S) T = Inl e \<longrightarrow> extract_papers_from_session fs head T S = Inl e)"
proof (intro conjI impI allI)
  assume w: "fs (debug_file S) T = Inr ()"
  let ?nums = "sort (remdups (findall_ids S T))"
  have "sorted_wrt (<) ?nums" by (simp add: strict_sorted_iff)
  moreover have "distinct ?nums" by simp
  moreover have "set ?nums = set (findall_ids S T)" by simp
  ultimately show "\<exists>ps nums. extract_papers_from_session fs head T S = Inr ps \<and>
         map paper_id ps = map (\<lambda>num. S @ num) nums \<and>
         sorted_wrt (<) nums \<and> distinct nums \<and> set nums = set (findall_ids S T)"
    using session_ids [where fs = fs and S = S and T = T and head = head, OF w] by blast
next
  fix e assume "fs (debug_file S) T = Inl e"
  then show "extract_papers_from_session fs head T S = Inl e"
    by (simp add: extract_papers_from_session_def)
qed

theorem session_ids_sorted_as_strings_witness:
  "any_file_ok (debug_file ''MOFAA'') ''MOFAA2 MOFAA10 MOFAA2'' = Inr () \<and>
   (\<exists>ps nums. extract_papers_from_session any_file_ok offline ''MOFAA2 MOFAA10 MOFAA2'' ''MOFAA'' =
        Inr ps \<and>
      map paper_id ps = map (\<lambda>num. ''MOFAA'' @ num) nums \<and>
      sorted_wrt (<) nums \<and> distinct nums \<and>
      set nums = set (findall_ids ''MOFAA'' ''MOFAA2 MOFAA10 MOFAA2'')) \<and>
   flat_debug_dir (debug_file ''MO/AA'') ''MO/AA1 Title'' = Inl OSError \<and>
   extract_papers_from_session flat_debug_dir offline ''MO/AA1 Title'' ''MO/AA'' = Inl OSError"
proof -
  have w: "any_file_ok (debug_file ''MOFAA'') ''MOFAA2 MOFAA10 MOFAA2'' = Inr ()"
    by (simp add: any_file_ok_def)
  note ok = session_ids_sorted_as_strings
    [where fs = any_file_ok and S = "''MOFAA''" and T = "''MOFAA2 MOFAA10 MOFAA2''"
       and head = offline, THEN conjunct1, THEN mp, OF w]
  have f: "flat_debug_dir (debug_file ''MO/AA'') ''MO/AA1 Title'' = Inl OSError"
    by code_simp
  note bad = session_ids_sorted_as_strings
    [where fs = flat_debug_dir and S = "''MO/AA''" and T = "''MO/AA1 Title''"
       and head = offline, THEN conjunct2, THEN spec, THEN mp, OF f]
  show ?thesis by (intro conjI w ok f bad)
qed

text \<open>
  Claim C1, as stated, fails twice. The digit strings are compared as strings, so for a
  page naming papers 2 and 10 the paper with suffix 10 comes first, although 2 is the
  smaller integer. And for the session identifier \<open>MO/AA\<close> on a file system whose debug
  directory has no subdirectory \<open>MO\<close>, the segmenter raises and returns no sequence.
\<close>

theorem session_ids_not_sorted_as_integers:
  "map_sum id (map paper_id)
     (extract_papers_from_session any_file_ok offline ''MOFAA2 MOFAA10 MOFAA2'' ''MOFAA'') =
     Inr [''MOFAA10'', ''MOFAA2''] \<and>
   suffix_as_integer ''2'' < suffix_as_integer ''10'' \<and>
   extract_papers_from_session flat_debug_dir offline ''MO/AA1 Title'' ''MO/AA'' = Inl OSError"
  by code_simp

section \<open>What the extractor reads from the lines\<close>

lemma classify_fold:
  "foldl (classify_line t p) (a, i, b) ls =
     (a @ filter (\<lambda>l. l \<noteq> t \<and> l \<noteq> p \<and> is_author_line l) ls,
      i @ filter (\<lambda>l. l \<noteq> t \<and> l \<noteq> p \<and> \<not> is_author_line l \<and> is_institution_line l) ls,
      b @ filter (\<lambda>l. l \<noteq> t \<and> l \<noteq> p \<and> \<not> is_author_line l \<and> \<not> is_institution_line l \<and>
                       is_abstract_line l) ls)"
  by (induction ls arbitrary: a i b) (simp_all add: classify_line_def)

lemma title_and_page_sel:
  "title (title_and_page ls info) = (case ls of [] \<Rightarrow> title info | l # _ \<Rightarrow> l)"
  "page_number (title_and_page ls info) =
     (case find is_page_line ls of None \<Rightarrow> page_number info | Some l \<Rightarrow> l)"
  "authors (title_and_page ls info) = authors info"
  "institutions (title_and_page ls info) = institutions info"
  by (simp_all add: title_and_page_def Let_def split: list.split option.split)

lemma classify_lines_sel:
  "title (classify_lines ls info) = title info"
  "page_number (classify_lines ls info) = page_number info"
  "authors (classify_lines ls info) =
     (let A = filter (\<lambda>l. l \<noteq> title info \<and> l \<noteq> page_number info \<and> is_author_line l) ls
      in if A \<noteq> [] then concat (map split_authors A) else authors info)"
  "institutions (classify_lines ls info) =
     (let I = filter (\<lambda>l. l \<noteq> title info \<and> l \<noteq> page_number info \<and>
                           \<not> is_author_line l \<and> is_institution_line l) ls
      in if I \<noteq> [] then I else institutions info)"
  by (simp_all add: classify_lines_def Let_def classify_fold)

lemma parse_lines_title:
  "title (parse_lines ls info) = (case ls of [] \<Rightarrow> title info | l # _ \<Rightarrow> l)"
  by (simp add: parse_lines_def classify_lines_sel title_and_page_sel)

lemma parse_lines_page_number:
  "page_number (parse_lines ls info) =
     (case find is_page_line ls of None \<Rightarrow> page_number info | Some l \<Rightarrow> l)"
  by (simp add: parse_lines_def classify_lines_sel title_and_page_sel)

lemma parse_lines_authors_if:
  "authors (parse_lines ls info) =
     (let A = filter (\<lambda>l. l \<noteq> title (parse_lines ls info) \<and>
                           l \<noteq> page_number (parse_lines ls info) \<and> is_author_line l) ls
      in if A \<noteq> [] then concat (map split_authors A) else authors info)"
  by (simp add: parse_lines_def classify_lines_sel title_and_page_sel Let_def cong: if_cong)

lemma parse_lines_institutions_if:
  "institutions (parse_lines ls info) =
     (let I = filter (\<lambda>l. l \<noteq> title (parse_lines ls info) \<and>
                           l \<noteq> page_number (parse_lines ls info) \<and>
                           \<not> is_author_line l \<and> is_institution_line l) ls
      in if I \<noteq> [] then I else institutions info)"
  by (simp add: parse_lines_def classify_lines_sel title_and_page_sel Let_def cong: if_cong)

lemma parse_lines_authors:
  "authors (parse_lines ls (default_paper_info pid)) =
     concat (map split_authors
       (filter (\<lambda>l. l \<noteq> title (parse_lines ls (default_paper_info pid)) \<and>
                    l \<noteq> page_number (parse_lines ls (default_paper_info pid)) \<and>
                    is_author_line l) ls))"
proof -
  have "authors (default_paper_info pid) = []" by (simp add: default_paper_info_def)
  then show ?thesis
    unfolding parse_lines_authors_if [of ls "default_paper_info pid"] Let_def
    by (metis concat.simps(1) list.simps(8))
qed

lemma parse_lines_institutions:
  "institutions (parse_lines ls (default_paper_info pid)) =
     filter (\<lambda>l. l \<noteq> title (parse_lines ls (default_paper_info pid)) \<and>
                 l \<noteq> page_number (parse_lines ls (default_paper_info pid)) \<and>
                 \<not> is_author_line l \<and> is_institution_line l) ls"
proof -
  have "institutions (default_paper_info pid) = []" by (simp add: default_paper_info_def)
  then show ?thesis
    unfolding parse_lines_institutions_if [of ls "default_paper_info pid"] Let_def
    by metis
qed


section \<open>The page number\<close>

lemma takeWhile_block:
  assumes "list_all P xs" and "\<not> list_ex P (take 1 ys)"
  shows "takeWhile P (xs @ ys) = xs" and "dropWhile P (xs @ ys) = ys"
proof -
  from assms(2) have ys: "takeWhile P ys = []" "dropWhile P ys = ys"
    by (cases ys; simp)+
  from assms(1) have "\<forall>x \<in> set xs. P x" by (simp add: list_all_iff)
  then show "takeWhile P (xs @ ys) = xs" and "dropWhile P (xs @ ys) = ys"
    using ys by (simp_all add: takeWhile_append2 dropWhile_append2)
qed

lemma search_paper_id_split:
  assumes T: "T = pre @ pid @ ws @ ds @ rest"
    and first: "\<forall>j<length pre. \<not> startswith (drop j T) pid"
    and ws: "list_all isspace ws" "\<not> list_ex isspace (take 1 (ds @ rest))"
    and ds: "list_all isdigit ds" "\<not> list_ex isdigit (take 1 rest)"
  shows "\<exists>start. search_paper_id pid T = Some start \<and> drop start T = rest"
proof -
  let ?i = "length pre"
  have "drop ?i T = pid @ (ws @ ds @ rest)" by (simp add: T)
  then have "startswith (drop ?i T) pid" unfolding startswith_iff by blast
  moreover have "?i \<le> length T" by (simp add: T)
  ultimately have "?i \<le> length T \<and> startswith (drop ?i T) pid \<and>
      (\<forall>j<?i. \<not> startswith (drop j T) pid)"
    using first by blast
  then have f: "find_str T pid = Some ?i" by (rule find_str_Some_iff [THEN iffD2])
  have r: "drop (?i + length pid) T = ws @ (ds @ rest)" by (simp add: T)
  have w: "takeWhile isspace (ws @ (ds @ rest)) = ws"
      "dropWhile isspace (ws @ (ds @ rest)) = ds @ rest"
    using takeWhile_block [OF ws] by simp_all
  have d: "takeWhile isdigit (ds @ rest) = ds"
    using takeWhile_block [OF ds] by simp
  have "search_paper_id pid T = Some (?i + length pid + length ws + length ds)"
    by (simp add: search_paper_id_def f r w d Let_def)
  moreover have "drop (?i + length pid + length ws + length ds) T = rest"
    by (simp add: T)
  ultimately show ?thesis by blast
qed




text \<open>
  Claim C10, as the code has it. The scan for the page number starts at the first line of
  the section, the section beginning after the identifier, the white space that follows
  it and the digits that follow that white space: when the first line of this section
  consists of one to three digits, it becomes both the title and the page number of the
  returned record.
\<close>

theorem numeric_first_line_is_title_and_page_number:
  assumes "T = pre @ pid @ ws @ ds @ rest"
      and "\<forall>j<length pre. \<not> startswith (drop j T) pid"
      and "list_all isspace ws" and "\<not> list_ex isspace (take 1 (ds @ rest))"
      and "list_all isdigit ds" and "\<not> list_ex isdigit (take 1 rest)"
      and "content_lines (paper_content_of rest) = l # others"
      and "is_page_line l"
  shows "\<exists>r. extract_paper_details_from_page head T pid = Inr r \<and>
      title r = l \<and> page_number r = l"
proof -
  from search_paper_id_split [OF assms(1-6)] obtain start where
    s: "search_paper_id pid T = Some start" and d: "drop start T = rest" by blast
  from extract_found [OF s, of head] d assms(7) obtain b1 b2 b3 where
    r: "extract_paper_details_from_page head T pid =
      Inr ((parse_lines (l # others) (default_paper_info pid))
            \<lparr>presentation_available := b1, paper_available := b2, poster_available := b3\<rparr>)"
    by auto
  from assms(8) show ?thesis
    by (simp add: r parse_lines_title parse_lines_page_number)
qed

theorem numeric_first_line_is_title_and_page_number_witness:
  "numeric_title_page =
     [] @ ''MOFAA1'' @ '' '' @ ''12'' @ ([NL] @ ''34'' @ [NL] @ ''Cavity tuning'' @ [NL]) \<and>
   content_lines (paper_content_of ([NL] @ ''34'' @ [NL] @ ''Cavity tuning'' @ [NL])) =
     [''34'', ''Cavity tuning''] \<and>
   is_page_line ''34'' \<and>
   (\<exists>r. extract_paper_details_from_page offline numeric_title_page ''MOFAA1'' = Inr r \<and>
        title r = ''34'' \<and> page_number r = ''34'')"
proof -
  let ?rest = "[NL] @ ''34'' @ [NL] @ ''Cavity tuning'' @ [NL]"
  have T: "numeric_title_page = [] @ ''MOFAA1'' @ '' '' @ ''12'' @ ?rest"
    by (simp add: numeric_title_page_def)
  have first: "\<forall>j<length ([] :: string). \<not> startswith (drop j numeric_title_page) ''MOFAA1''"
    by simp
  have w1: "list_all isspace '' ''" by code_simp
  have w2: "\<not> list_ex isspace (take 1 (''12'' @ ?rest))" by code_simp
  have d1: "list_all isdigit ''12''" by code_simp
  have d2: "\<not> list_ex isdigit (take 1 ?rest)" by code_simp
  have ls: "content_lines (paper_content_of ?rest) = [''34'', ''Cavity tuning'']" by code_simp
  have p: "is_page_line ''34''" by code_simp
  show ?thesis
    by (intro conjI T ls p
        numeric_first_line_is_title_and_page_number [OF T first w1 w2 d1 d2 ls p, of offline])
qed

text \<open>
  Claim C10, as stated, fails when the section is taken to begin immediately after the
  identifier: in the page that begins \<open>MOFAA1 12\<close> and goes on with the lines \<open>34\<close> and
  \<open>Cavity tuning\<close>, the first line of the section is \<open>12\<close>, of one to three digits,
  but title and page number are both \<open>34\<close>.
\<close>

theorem number_on_identifier_line_is_not_title:
  "section_lines_as_specified ''MOFAA1'' numeric_title_page =
     [''12'', ''34'', ''Cavity tuning''] \<and>
   is_page_line ''12'' \<and>
   map_sum id title
     (extract_paper_details_from_page offline numeric_title_page ''MOFAA1'') = Inr ''34'' \<and>
   map_sum id page_number
     (extract_paper_details_from_page offline numeric_title_page ''MOFAA1'') = Inr ''34''"
  by code_simp

section \<open>Author lines\<close>

lemma length_split_chr: "length (split_chr sep s) = Suc (length (filter (\<lambda>c. c = sep) s))"
  by (induction s) (auto split: list.split)

lemma is_author_line_iff:
  "is_author_line line \<longleftrightarrow>
     CHR '','' \<in> set line \<and>
     \<not> (\<exists>keyword \<in> set author_stop_words. \<exists>a b. lower line = a @ keyword @ b)"
proof -
  have "1 < length (split_chr (CHR '','') line)" if "CHR '','' \<in> set line"
  proof -
    from that have "filter (\<lambda>c. c = CHR '','') line \<noteq> []"
      by (simp add: filter_empty_conv)
    then show ?thesis by (simp add: length_split_chr)
  qed
  then show ?thesis
    by (auto simp: is_author_line_def list_ex_iff contains_iff)
qed

text \<open>
  Claim C6. The author check comes before the institution check: a line that passes both
  is appended to the author lines and not to the institution lines, in the loop and in
  the record the extractor returns. The line \<open>Jefferson Lab, A. Smith, B. Jones\<close> yields
  three authors and no institution.
\<close>

theorem author_check_before_institution_check:
  assumes "search_paper_id pid T = Some start"
      and "line \<in> set (content_lines (paper_content_of (drop start T)))"
      and "is_author_line line" and "is_institution_line line"
  shows "(line \<noteq> ttl \<and> line \<noteq> pn \<longrightarrow>
            classify_line ttl pn (al, il, bl) line = (al @ [line], il, bl)) \<and>
         (\<exists>r. extract_paper_details_from_page head T pid = Inr r \<and>
              line \<notin> set (institutions r) \<and>
              (line = title r \<or> line = page_number r \<or>
               set (split_authors line) \<subseteq> set (authors r)))"
proof -
  let ?ls = "content_lines (paper_content_of (drop start T))"
  let ?p = "parse_lines ?ls (default_paper_info pid)"
  from extract_found [OF assms(1), of head] obtain b1 b2 b3 where
    r: "extract_paper_details_from_page head T pid =
      Inr (?p\<lparr>presentation_available := b1, paper_available := b2, poster_available := b3\<rparr>)"
    by blast
  have 1: "line \<noteq> ttl \<and> line \<noteq> pn \<longrightarrow>
            classify_line ttl pn (al, il, bl) line = (al @ [line], il, bl)"
    using assms(3) by (simp add: classify_line_def)
  have 2: "line \<notin> set (institutions ?p)"
    using assms(3) by (simp add: parse_lines_institutions)
  have 3: "set (split_authors line) \<subseteq> set (authors ?p)"
    if "line \<noteq> title ?p" "line \<noteq> page_number ?p"
  proof -
    from that assms(2,3)
    have "line \<in> set (filter (\<lambda>l. l \<noteq> title ?p \<and> l \<noteq> page_number ?p \<and> is_author_line l) ?ls)"
      by simp
    then show ?thesis
      unfolding parse_lines_authors [of ?ls pid] by auto
  qed
  from r 2 3
  have "\<exists>r. extract_paper_details_from_page head T pid = Inr r \<and>
              line \<notin> set (institutions r) \<and>
              (line = title r \<or> line = page_number r \<or>
               set (split_authors line) \<subseteq> set (authors r))"
    by auto
  with 1 show ?thesis by (rule conjI)
qed

theorem author_check_before_institution_check_witness:
  "is_author_line ''Jefferson Lab, A. Smith, B. Jones'' \<and>
   is_institution_line ''Jefferson Lab, A. Smith, B. Jones'' \<and>
   classify_line ''Title'' [] ([], [], []) ''Jefferson Lab, A. Smith, B. Jones'' =
     ([''Jefferson Lab, A. Smith, B. Jones''], [], []) \<and>
   map_sum id authors (extract_paper_details_from_page offline priority_page ''MOFAA1'') =
     Inr [''Jefferson Lab'', ''A. Smith'', ''B. Jones''] \<and>
   map_sum id institutions (extract_paper_details_from_page offline priority_page ''MOFAA1'') =
     Inr []"
proof -
  let ?l = "''Jefferson Lab, A. Smith, B. Jones''"
  have s: "search_paper_id ''MOFAA1'' priority_page = Some 7" by code_simp
  have "content_lines (paper_content_of (drop 7 priority_page)) = [''Title'', ?l]"
    by code_simp
  then have m: "?l \<in> set (content_lines (paper_content_of (drop 7 priority_page)))"
    by simp
  have a: "is_author_line ?l" by code_simp
  have i: "is_institution_line ?l" by code_simp
  have n: "?l \<noteq> ''Title'' \<and> ?l \<noteq> []" by simp
  note th = author_check_before_institution_check
    [OF s m a i, of "''Title''" "[]" "[]" "[]" "[]" offline]
  from th have "?l \<noteq> ''Title'' \<and> ?l \<noteq> [] \<longrightarrow>
      classify_line ''Title'' [] ([], [], []) ?l = ([] @ [?l], [], [])"
    by (rule conjunct1)
  from this n have "classify_line ''Title'' [] ([], [], []) ?l = ([] @ [?l], [], [])"
    by (rule mp)
  then have c: "classify_line ''Title'' [] ([], [], []) ?l = ([?l], [], [])"
    by (simp only: append_Nil)
  have e1: "map_sum id authors (extract_paper_details_from_page offline priority_page ''MOFAA1'') =
     Inr [''Jefferson Lab'', ''A. Smith'', ''B. Jones'']" by code_simp
  have e2: "map_sum id institutions (extract_paper_details_from_page offline priority_page ''MOFAA1'') =
     Inr []" by code_simp
  show ?thesis by (intro conjI a i c e1 e2)
qed

text \<open>
  Claim C5, as the code has it. For a paper found in the text, the authors of the returned
  record are, in order and with repetitions kept, the trimmed non-empty comma-separated
  pieces of those lines of the section that differ from the title and from the page
  number, contain a comma, and whose lower-cased text contains none of \<open>funding\<close>,
  \<open>doi\<close>, \<open>received\<close>, \<open>accepted\<close>. The number of non-empty pieces plays no part in
  the choice of the lines.
\<close>

theorem author_lines_rule:
  assumes "search_paper_id pid T = Some start"
  shows "\<exists>r. extract_paper_details_from_page head T pid = Inr r \<and>
     authors r =
       concat (map (\<lambda>line. map strip (filter (\<lambda>a. strip a \<noteq> []) (split_chr (CHR '','') line)))
         (filter (\<lambda>line. line \<noteq> title r \<and> line \<noteq> page_number r \<and>
                    CHR '','' \<in> set line \<and>
                    \<not> (\<exists>keyword \<in> set author_stop_words. \<exists>a b. lower line = a @ keyword @ b))
            (content_lines (paper_content_of (drop start T)))))"
proof -
  let ?ls = "content_lines (paper_content_of (drop start T))"
  let ?p = "parse_lines ?ls (default_paper_info pid)"
  from extract_found [OF assms(1), of head] obtain b1 b2 b3 where
    r: "extract_paper_details_from_page head T pid =
      Inr (?p\<lparr>presentation_available := b1, paper_available := b2, poster_available := b3\<rparr>)"
    by blast
  have "authors ?p =
       concat (map (\<lambda>line. map strip (filter (\<lambda>a. strip a \<noteq> []) (split_chr (CHR '','') line)))
         (filter (\<lambda>line. line \<noteq> title ?p \<and> line \<noteq> page_number ?p \<and>
                    CHR '','' \<in> set line \<and>
                    \<not> (\<exists>keyword \<in> set author_stop_words. \<exists>a b. lower line = a @ keyword @ b))
            ?ls))"
    unfolding parse_lines_authors [of ?ls pid] is_author_line_iff split_authors_def ..
  with r show ?thesis by simp
qed

theorem author_lines_rule_witness:
  "search_paper_id ''MOFAA1'' authors_page = Some 7 \<and>
   content_lines (paper_content_of (drop 7 authors_page)) =
     [''Title'', ''A. Smith , B. Jones,'', ''Funding: DOE, NSF'', ''C. Wu, A. Smith''] \<and>
   (\<exists>r. extract_paper_details_from_page offline authors_page ''MOFAA1'' = Inr r \<and>
     authors r =
       concat (map (\<lambda>line. map strip (filter (\<lambda>a. strip a \<noteq> []) (split_chr (CHR '','') line)))
         (filter (\<lambda>line. line \<noteq> title r \<and> line \<noteq> page_number r \<and>
                    CHR '','' \<in> set line \<and>
                    \<not> (\<exists>keyword \<in> set author_stop_words. \<exists>a b. lower line = a @ keyword @ b))
            (content_lines (paper_content_of (drop 7 authors_page)))))) \<and>
   map_sum id authors (extract_paper_details_from_page offline authors_page ''MOFAA1'') =
     Inr [''A. Smith'', ''B. Jones'', ''C. Wu'', ''A. Smith'']"
proof -
  have s: "search_paper_id ''MOFAA1'' authors_page = Some 7" by code_simp
  have ls: "content_lines (paper_content_of (drop 7 authors_page)) =
     [''Title'', ''A. Smith , B. Jones,'', ''Funding: DOE, NSF'', ''C. Wu, A. Smith'']"
    by code_simp
  have e: "map_sum id authors (extract_paper_details_from_page offline authors_page ''MOFAA1'') =
     Inr [''A. Smith'', ''B. Jones'', ''C. Wu'', ''A. Smith'']" by code_simp
  show ?thesis by (intro conjI s ls e author_lines_rule [OF s, of offline])
qed

text \<open>
  Claim C5, as stated, fails: a line with a comma and a single non-empty piece is an author
  line of the code, although it does not split into two non-empty pieces. The line
  \<open>Stanford University,\<close> becomes an author and not an institution.
\<close>

theorem trailing_comma_line_is_author_line:
  "\<not> author_line_as_specified ''Stanford University,'' \<and>
   is_author_line ''Stanford University,'' \<and>
   map_sum id authors (extract_paper_details_from_page offline trailing_comma_page ''MOFAA1'') =
     Inr [''Stanford University''] \<and>
   map_sum id institutions (extract_paper_details_from_page offline trailing_comma_page ''MOFAA1'') =
     Inr []"
  by code_simp

section \<open>The end of a section\<close>

lemma next_paper_at_Nil: "\<not> next_paper_at []"
  by (simp add: next_paper_at_def)

lemma search_next_paper_None_iff:
  "search_next_paper s = None \<longleftrightarrow> (\<forall>j. \<not> next_paper_at (drop j s))"
proof (induction s)
  case Nil
  then show ?case by (simp add: next_paper_at_Nil)
next
  case (Cons c s)
  have "(\<forall>j. \<not> next_paper_at (drop j (c # s))) \<longleftrightarrow>
        \<not> next_paper_at (c # s) \<and> (\<forall>j. \<not> next_paper_at (drop j s))"
  proof
    assume h: "\<forall>j. \<not> next_paper_at (drop j (c # s))"
    from h [rule_format, of 0] have "\<not> next_paper_at (c # s)" by simp
    moreover have "\<not> next_paper_at (drop j s)" for j
      using h [rule_format, of "Suc j"] by simp
    ultimately show "\<not> next_paper_at (c # s) \<and> (\<forall>j. \<not> next_paper_at (drop j s))" by blast
  next
    assume h: "\<not> next_paper_at (c # s) \<and> (\<forall>j. \<not> next_paper_at (drop j s))"
    show "\<forall>j. \<not> next_paper_at (drop j (c # s))"
    proof
      fix j show "\<not> next_paper_at (drop j (c # s))"
        using h by (cases j) simp_all
    qed
  qed
  with Cons.IH show ?case by simp
qed

lemma search_next_paper_Some_iff:
  "search_next_paper s = Some k \<longleftrightarrow>
     next_paper_at (drop k s) \<and> (\<forall>j<k. \<not> next_paper_at (drop j s))"
proof (induction s arbitrary: k)
  case Nil
  then show ?case by (simp add: next_paper_at_Nil)
next
  case (Cons c s)
  show ?case
  proof (cases "next_paper_at (c # s)")
    case True
    then show ?thesis by (cases k) auto
  next
    case False
    show ?thesis
    proof (cases k)
      case 0
      with False show ?thesis by simp
    next
      case (Suc n)
      have "(\<forall>j<Suc n. \<not> next_paper_at (drop j (c # s))) \<longleftrightarrow>
            (\<forall>j<n. \<not> next_paper_at (drop j s))"
        using False by (auto simp: less_Suc_eq_0_disj)
      with False Suc Cons.IH [of n] show ?thesis by auto
    qed
  qed
qed

lemma marker_fold_le: "foldl (marker_step s) n ms \<le> n"
proof (induction ms arbitrary: n)
  case Nil
  then show ?case by simp
next
  case (Cons m ms)
  have "marker_step s n m \<le> n"
    by (simp add: marker_step_def split: option.split)
  with Cons [of "marker_step s n m"] show ?case by simp
qed

lemma marker_fold_found:
  "foldl (marker_step s) n ms = n \<or>
   (\<exists>m \<in> set ms. find_str s m = Some (foldl (marker_step s) n ms))"
proof (induction ms arbitrary: n)
  case Nil
  then show ?case by simp
next
  case (Cons m ms)
  let ?n' = "marker_step s n m"
  have step: "?n' = n \<or> find_str s m = Some ?n'"
    by (auto simp: marker_step_def split: option.split)
  from Cons [of ?n'] step show ?case by auto
qed

lemma marker_fold_least:
  "m \<in> set ms \<Longrightarrow> find_str s m = Some p \<Longrightarrow> foldl (marker_step s) n ms \<le> p"
proof (induction ms arbitrary: n)
  case Nil
  then show ?case by simp
next
  case (Cons m' ms)
  show ?case
  proof (cases "m = m'")
    case True
    with Cons.prems have "marker_step s n m' \<le> p"
      by (simp add: marker_step_def)
    moreover have "foldl (marker_step s) (marker_step s n m') ms \<le> marker_step s n m'"
      by (rule marker_fold_le)
    ultimately show ?thesis by simp
  next
    case False
    with Cons.prems have "m \<in> set ms" by simp
    from Cons.IH [OF this Cons.prems(2), of "marker_step s n m'"] show ?thesis by simp
  qed
qed

lemma startswith_nonempty_lt:
  assumes "startswith (drop k s) m" and "m \<noteq> []"
  shows "k < length s"
proof (rule ccontr)
  assume "\<not> k < length s"
  then have "drop k s = []" by simp
  with assms show False by (cases m) simp_all
qed

lemma end_markers_nonempty: "m \<in> set end_markers \<Longrightarrow> m \<noteq> []"
  by (auto simp: end_markers_def)

lemma content_next_paper:
  assumes "next_paper_at (drop k s)" and "\<forall>j<k. \<not> next_paper_at (drop j s)"
  shows "paper_content_of s = take k s"
proof -
  from assms have "search_next_paper s = Some k" by (simp add: search_next_paper_Some_iff)
  then show ?thesis by (simp add: paper_content_of_def)
qed

lemma content_marker:
  assumes np: "\<forall>j. \<not> next_paper_at (drop j s)"
    and m: "m \<in> set end_markers" and sw: "startswith (drop k s) m"
    and least: "\<forall>j<k. \<forall>m' \<in> set end_markers. \<not> startswith (drop j s) m'"
  shows "paper_content_of s = take k s"
proof -
  define e where "e = foldl (marker_step s) (length s) end_markers"
  from np have none: "search_next_paper s = None" by (simp add: search_next_paper_None_iff)
  from startswith_nonempty_lt [OF sw end_markers_nonempty [OF m]]
  have klt: "k < length s" .
  have "\<not> startswith (drop j s) m" if "j < k" for j
    using least [rule_format, OF that m] .
  then have "k \<le> length s \<and> startswith (drop k s) m \<and> (\<forall>j<k. \<not> startswith (drop j s) m)"
    using klt sw by simp
  then have fm: "find_str s m = Some k" by (rule find_str_Some_iff [THEN iffD2])
  from marker_fold_least [OF m fm, of "length s"] have le: "e \<le> k" by (simp add: e_def)
  with klt have "e \<noteq> length s" by simp
  with marker_fold_found [of s "length s" end_markers]
  obtain m' where m': "m' \<in> set end_markers" "find_str s m' = Some e"
    unfolding e_def by blast
  from find_str_Some_iff [THEN iffD1, OF m'(2)]
  have sw': "startswith (drop e s) m'" by (rule conjunct2 [THEN conjunct1])
  have "\<not> e < k"
  proof
    assume "e < k"
    from least [rule_format, OF this m'(1)] sw' show False by (rule notE)
  qed
  with le have "e = k" by simp
  with none klt show ?thesis by (simp add: paper_content_of_def Let_def e_def [symmetric])
qed

lemma content_whole:
  assumes np: "\<forall>j. \<not> next_paper_at (drop j s)"
    and nm: "\<forall>j. \<forall>m \<in> set end_markers. \<not> startswith (drop j s) m"
  shows "paper_content_of s = s"
proof -
  let ?e = "foldl (marker_step s) (length s) end_markers"
  from np have none: "search_next_paper s = None" by (simp add: search_next_paper_None_iff)
  have "?e = length s"
  proof (rule ccontr)
    assume "?e \<noteq> length s"
    with marker_fold_found [of s "length s" end_markers]
    obtain m' where m': "m' \<in> set end_markers" "find_str s m' = Some ?e" by blast
    then have "startswith (drop ?e s) m'" by (simp add: find_str_Some_iff)
    with nm m' show False by blast
  qed
  with none show ?thesis by (simp add: paper_content_of_def Let_def)
qed

lemma no_marker_anywhere:
  assumes "find_str s m = None"
  shows "\<not> startswith (drop j s) m"
proof
  assume "startswith (drop j s) m"
  then obtain t where "drop j s = m @ t" by (auto simp: startswith_iff)
  then have "s = take j s @ m @ t" by (metis append_take_drop_id)
  with assms show False by (simp add: find_str_None_iff)
qed

lemma no_marker_before:
  assumes "case find_str s m of None \<Rightarrow> True | Some p \<Rightarrow> k \<le> p"
  shows "\<forall>j<k. \<not> startswith (drop j s) m"
proof (cases "find_str s m")
  case None
  then show ?thesis by (simp add: no_marker_anywhere)
next
  case (Some p)
  with assms have kp: "k \<le> p" by simp
  from find_str_Some_iff [THEN iffD1, OF Some]
  have "\<forall>j<p. \<not> startswith (drop j s) m" by (rule conjunct2 [THEN conjunct2])
  with kp show ?thesis by simp
qed

lemma no_markers_before:
  assumes "list_all (\<lambda>m. case find_str s m of None \<Rightarrow> True | Some p \<Rightarrow> k \<le> p) ms"
  shows "\<forall>j<k. \<forall>m \<in> set ms. \<not> startswith (drop j s) m"
  using assms no_marker_before [where s = s and k = k] by (auto simp: list_all_iff)

lemma no_markers_anywhere:
  assumes "list_all (\<lambda>m. find_str s m = None) ms"
  shows "\<forall>j. \<forall>m \<in> set ms. \<not> startswith (drop j s) m"
  using assms no_marker_anywhere [where s = s] by (auto simp: list_all_iff)

text \<open>
  Claim C2, as the code has it. The section of a paper is cut from the text that follows
  its identifier. It ends at the first place where five capital letters and a digit
  stand, when there is such a place; the end markers are not looked at then. When there
  is none, it ends at the first place where one of \<open>DOI:\<close>, \<open>Received:\<close>,
  \<open>Accepted:\<close>, \<open>Paper:\<close>, \<open>Cite:\<close>, \<open>Export:\<close> stands; with no such place either,
  it is the whole remaining text. The extractor reads its lines from this section.
\<close>

theorem section_end_rule:
  "(next_paper_at (drop k s) \<and> (\<forall>j<k. \<not> next_paper_at (drop j s)) \<longrightarrow>
      paper_content_of s = take k s) \<and>
   ((\<forall>j. \<not> next_paper_at (drop j s)) \<and> m \<in> set end_markers \<and> startswith (drop k s) m \<and>
    (\<forall>j<k. \<forall>m' \<in> set end_markers. \<not> startswith (drop j s) m') \<longrightarrow>
      paper_content_of s = take k s) \<and>
   ((\<forall>j. \<not> next_paper_at (drop j s)) \<and>
    (\<forall>j. \<forall>m' \<in> set end_markers. \<not> startswith (drop j s) m') \<longrightarrow>
      paper_content_of s = s) \<and>
   (search_paper_id pid T = Some start \<longrightarrow>
      (\<exists>b1 b2 b3. extract_paper_details_from_page head T pid =
         Inr ((parse_lines (content_lines (paper_content_of (drop start T)))
                 (default_paper_info pid))
              \<lparr>presentation_available := b1, paper_available := b2,
                poster_available := b3\<rparr>)))"
proof (intro conjI impI)
  assume "next_paper_at (drop k s) \<and> (\<forall>j<k. \<not> next_paper_at (drop j s))"
  then show "paper_content_of s = take k s"
    using content_next_paper [where k = k and s = s] by blast
next
  assume "(\<forall>j. \<not> next_paper_at (drop j s)) \<and> m \<in> set end_markers \<and>
    startswith (drop k s) m \<and> (\<forall>j<k. \<forall>m' \<in> set end_markers. \<not> startswith (drop j s) m')"
  then show "paper_content_of s = take k s"
    using content_marker [where k = k and s = s and m = m] by blast
next
  assume "(\<forall>j. \<not> next_paper_at (drop j s)) \<and>
    (\<forall>j. \<forall>m' \<in> set end_markers. \<not> startswith (drop j s) m')"
  then show "paper_content_of s = s"
    using content_whole [where s = s] by blast
next
  assume "search_paper_id pid T = Some start"
  then show "\<exists>b1 b2 b3. extract_paper_details_from_page head T pid =
         Inr ((parse_lines (content_lines (paper_content_of (drop start T)))
                 (default_paper_info pid))
              \<lparr>presentation_available := b1, paper_available := b2,
                poster_available := b3\<rparr>)"
    by (rule extract_found)
qed

theorem section_end_rule_witness:
  "paper_content_of marker_then_paper = take 22 marker_then_paper \<and>
   take 22 marker_then_paper = ''Title DOI: 10.18429/x '' \<and>
   paper_content_of marker_only = take 6 marker_only \<and>
   take 6 marker_only = ''Title '' \<and>
   paper_content_of no_boundary = no_boundary"
proof -
  have "search_next_paper marker_then_paper = Some 22" by code_simp
  from search_next_paper_Some_iff [THEN iffD1, OF this]
  have h1: "next_paper_at (drop 22 marker_then_paper) \<and>
      (\<forall>j<22. \<not> next_paper_at (drop j marker_then_paper))" .
  note c1 = section_end_rule [where k = 22 and s = marker_then_paper,
      THEN conjunct1, THEN mp, OF h1]
  have t1: "take 22 marker_then_paper = ''Title DOI: 10.18429/x ''" by code_simp
  have "search_next_paper marker_only = None" by code_simp
  from search_next_paper_None_iff [THEN iffD1, OF this]
  have np2: "\<forall>j. \<not> next_paper_at (drop j marker_only)" .
  have mem: "''Received:'' \<in> set end_markers" by (simp add: end_markers_def)
  have sw: "startswith (drop 6 marker_only) ''Received:''" by code_simp
  have "list_all (\<lambda>m. case find_str marker_only m of None \<Rightarrow> True | Some p \<Rightarrow> 6 \<le> p)
      end_markers" by code_simp
  from no_markers_before [OF this]
  have least: "\<forall>j<6. \<forall>m' \<in> set end_markers. \<not> startswith (drop j marker_only) m'" .
  have h2: "(\<forall>j. \<not> next_paper_at (drop j marker_only)) \<and> ''Received:'' \<in> set end_markers \<and>
      startswith (drop 6 marker_only) ''Received:'' \<and>
      (\<forall>j<6. \<forall>m' \<in> set end_markers. \<not> startswith (drop j marker_only) m')"
    by (intro conjI np2 mem sw least)
  note c2 = section_end_rule [where k = 6 and s = marker_only and m = "''Received:''",
      THEN conjunct2, THEN conjunct1, THEN mp, OF h2]
  have t2: "take 6 marker_only = ''Title ''" by code_simp
  have "search_next_paper no_boundary = None" by code_simp
  from search_next_paper_None_iff [THEN iffD1, OF this]
  have np3: "\<forall>j. \<not> next_paper_at (drop j no_boundary)" .
  have "list_all (\<lambda>m. find_str no_boundary m = None) end_markers" by code_simp
  from no_markers_anywhere [OF this]
  have nm3: "\<forall>j. \<forall>m' \<in> set end_markers. \<not> startswith (drop j no_boundary) m'" .
  have h3: "(\<forall>j. \<not> next_paper_at (drop j no_boundary)) \<and>
      (\<forall>j. \<forall>m' \<in> set end_markers. \<not> startswith (drop j no_boundary) m')"
    by (intro conjI np3 nm3)
  note c3 = section_end_rule [where s = no_boundary,
      THEN conjunct2, THEN conjunct2, THEN conjunct1, THEN mp, OF h3]
  show ?thesis by (intro conjI c1 t1 c2 t2 c3)
qed

text \<open>
  Claim C2, as stated, fails: an end marker that stands before the next paper identifier
  does not end the section. In \<open>Title DOI: 10.18429/x MOFAA2 Next title\<close> the section
  runs up to \<open>MOFAA2\<close> and the title keeps the \<open>DOI:\<close> part.
\<close>

theorem marker_before_next_paper_is_kept:
  "paper_content_of marker_then_paper = ''Title DOI: 10.18429/x '' \<and>
   take (section_end_as_specified marker_then_paper) marker_then_paper = ''Title '' \<and>
   map_sum id title
     (extract_paper_details_from_page offline (''MOFAA1 '' @ marker_then_paper) ''MOFAA1'') =
     Inr ''Title DOI: 10.18429/x''"
  by code_simp

end
